theory Spec2Isabelle
  imports Main
begin

section \<open>The search bar (src/components/Search/SearchBar/index.tsx)\<close>

subsection \<open>SearchBarActions\<close>

datatype SearchBarActions = Search | Filter | Highlight

text \<open>
  Modelled from the spec: the declaration of the enumeration \<open>SearchBarActions\<close>
  (module \<open>constants/enums\<close>) is not part of the sources. The spec gives its members and
  their declaration order, Search, Filter, Highlight; the table below lists the enum
  object's entries (key, value) in that order.
\<close>

definition SearchBarActions_entries :: "(string \<times> SearchBarActions) list" where
  "SearchBarActions_entries =
     [(''Search'', Search), (''Filter'', Filter), (''Highlight'', Highlight)]"

definition Object_keys :: "(string \<times> SearchBarActions) list \<Rightarrow> string list" where
  "Object_keys obj = map fst obj"

definition Object_values :: "(string \<times> SearchBarActions) list \<Rightarrow> SearchBarActions list" where
  "Object_values obj = map snd obj"

text \<open>\<open>Array.prototype.indexOf\<close>: the first position of the element, or -1.\<close>

fun indexOf_from :: "int \<Rightarrow> 'a list \<Rightarrow> 'a \<Rightarrow> int" where
  "indexOf_from i [] x = -1"
| "indexOf_from i (y # ys) x = (if y = x then i else indexOf_from (i + 1) ys x)"

definition indexOf :: "'a list \<Rightarrow> 'a \<Rightarrow> int" where
  "indexOf xs x = indexOf_from 0 xs x"

text \<open>The remainder operator of JavaScript takes the sign of the dividend.\<close>

definition js_rem :: "int \<Rightarrow> int \<Rightarrow> int" where
  "js_rem a b = (if a < 0 then - ((- a) mod \<bar>b\<bar>) else a mod \<bar>b\<bar>)"

text \<open>Reading an array at an index: \<open>undefined\<close> outside the array.\<close>

definition array_get :: "'a list \<Rightarrow> int \<Rightarrow> 'a option" where
  "array_get xs i = (if 0 \<le> i \<and> i < int (length xs) then Some (xs ! nat i) else None)"

subsection \<open>Props, effects and the state of a mounted component\<close>

record props =
  disabled :: bool
  validator :: "string \<Rightarrow> bool"
  validatorMessage :: string

text \<open>
  The calls that leave the component: the breadcrumb sink and the two callbacks
  \<open>onSubmit\<close> and \<open>onChange\<close>, in the order in which they are made.
\<close>

datatype payload =
    SubmitPayload SearchBarActions string
  | SelectPayload SearchBarActions

datatype effect =
    LeaveBreadcrumb string payload
  | OnSubmit SearchBarActions string
  | OnChange SearchBarActions string

text \<open>
  A timer of the event loop. Its callback is the closure \<open>() => fn(...args)\<close> made by a
  debounced function, where \<open>fn\<close> is \<open>(value) => onChange(selected, value)\<close>: it holds the
  \<open>selected\<close> that \<open>fn\<close> closed over and the argument of the call.
\<close>

record timer =
  tid :: nat
  due :: nat
  cb_selected :: SearchBarActions
  cb_value :: string

text \<open>
  A debounced function: the \<open>selected\<close> captured by the function it wraps, its delay and
  its own \<open>timeout\<close> variable (the id of the timer it set last).
\<close>

record debounced =
  fn_selected :: SearchBarActions
  wait :: nat
  timeout :: "nat option"

text \<open>
  The values a render binds and the handlers of that render close over: \<open>input\<close> and
  \<open>selected\<close>. The flags \<open>isFilter\<close>, \<open>isHighlight\<close>, \<open>isSearch\<close> are computed from them.
\<close>

record render =
  input :: string
  selected :: SearchBarActions

definition isFilter :: "render \<Rightarrow> bool" where
  "isFilter r = (selected r = Filter)"

definition isHighlight :: "render \<Rightarrow> bool" where
  "isHighlight r = (selected r = Highlight)"

definition isSearch :: "render \<Rightarrow> bool" where
  "isSearch r = (selected r = Search)"

definition isValid :: "props \<Rightarrow> render \<Rightarrow> bool" where
  "isValid p r = validator p (input r)"

text \<open>
  The mounted component together with the part of the browser it acts on:
  the two \<open>useState\<close> cells, the \<open>useMemo\<close> cell (its dependency \<open>selected\<close> is the one
  the stored function captured), the value of the dependency \<open>isSearch\<close> at the last run of
  the effect, whether \<open>inputRef.current\<close> is set and whether the input has focus, the
  clock (milliseconds) and timers of the event loop, and the calls made so far.
\<close>

record state =
  input_cell :: string
  selected_cell :: SearchBarActions
  memo :: debounced
  effect_dep :: bool
  inputRef_current :: bool
  focused :: bool
  clock :: nat
  next_tid :: nat
  timers :: "timer list"
  trace :: "effect list"

definition render_of :: "state \<Rightarrow> render" where
  "render_of s = \<lparr>input = input_cell s, selected = selected_cell s\<rparr>"

definition setInput :: "string \<Rightarrow> state \<Rightarrow> state" where
  "setInput v s = s\<lparr>input_cell := v\<rparr>"

definition setSelected :: "SearchBarActions \<Rightarrow> state \<Rightarrow> state" where
  "setSelected m s = s\<lparr>selected_cell := m\<rparr>"

definition leaveBreadcrumb :: "string \<Rightarrow> payload \<Rightarrow> state \<Rightarrow> state" where
  "leaveBreadcrumb name pl s = s\<lparr>trace := trace s @ [LeaveBreadcrumb name pl]\<rparr>"

definition onSubmit :: "SearchBarActions \<Rightarrow> string \<Rightarrow> state \<Rightarrow> state" where
  "onSubmit m v s = s\<lparr>trace := trace s @ [OnSubmit m v]\<rparr>"

definition onChange :: "SearchBarActions \<Rightarrow> string \<Rightarrow> state \<Rightarrow> state" where
  "onChange m v s = s\<lparr>trace := trace s @ [OnChange m v]\<rparr>"

subsection \<open>Timers and debounce\<close>

definition clearTimeout :: "nat option \<Rightarrow> state \<Rightarrow> state" where
  "clearTimeout i s = s\<lparr>timers := filter (\<lambda>t. Some (tid t) \<noteq> i) (timers s)\<rparr>"

definition setTimeout :: "SearchBarActions \<Rightarrow> string \<Rightarrow> nat \<Rightarrow> state \<Rightarrow> nat \<times> state" where
  "setTimeout m v delay s =
     (next_tid s,
      s\<lparr>timers := timers s @
           [\<lparr>tid = next_tid s, due = clock s + delay, cb_selected = m, cb_value = v\<rparr>],
        next_tid := next_tid s + 1\<rparr>)"

text \<open>
  Modelled from the spec: \<open>utils/debounce\<close> is not part of the sources. The spec describes
  it as the standard trailing-edge debounce, \<open>Debounce(fn, delayMs) -> debouncedFn\<close>:
  ``delay invocation until no new calls arrive for a fixed window, then invoke once with
  the last arguments''. Each debounced function owns one timer: a call clears the timer it
  set before and sets a new one for \<open>fn\<close> with the arguments of this call.
\<close>

definition debounce :: "SearchBarActions \<Rightarrow> nat \<Rightarrow> debounced" where
  "debounce m ms = \<lparr>fn_selected = m, wait = ms, timeout = None\<rparr>"

definition debounced_call :: "debounced \<Rightarrow> string \<Rightarrow> state \<Rightarrow> debounced \<times> state" where
  "debounced_call d v s =
     (let s1 = clearTimeout (timeout d) s;
          (i, s2) = setTimeout (fn_selected d) v (wait d) s1
      in (d\<lparr>timeout := Some i\<rparr>, s2))"

text \<open>
  \<open>debouncedHandleOnChangeCallback(value)\<close>: the function called is the one in the
  \<open>useMemo\<close> cell, and the call updates that function's own \<open>timeout\<close> variable.
\<close>

definition debouncedHandleOnChangeCallback :: "string \<Rightarrow> state \<Rightarrow> state" where
  "debouncedHandleOnChangeCallback v s =
     (let (d, s') = debounced_call (memo s) v s in s'\<lparr>memo := d\<rparr>)"

text \<open>
  Time passing: the timers that are due fire in the order of their due times (timers due
  at the same time in the order they were set), each calling \<open>onChange\<close> with the
  \<open>selected\<close> its function captured and the value of the call.
\<close>

definition advance :: "nat \<Rightarrow> state \<Rightarrow> state" where
  "advance dt s =
     (let now = clock s + dt;
          fired = sort_key due (filter (\<lambda>t. due t \<le> now) (timers s))
      in fold (\<lambda>t. onChange (cb_selected t) (cb_value t)) fired
           (s\<lparr>clock := now, timers := filter (\<lambda>t. \<not> due t \<le> now) (timers s)\<rparr>))"

subsection \<open>The handlers\<close>

definition handleOnSubmit :: "render \<Rightarrow> state \<Rightarrow> state" where
  "handleOnSubmit r s =
     (let s1 = (if inputRef_current s then s\<lparr>focused := False\<rparr> else s);
          s2 = (if isFilter r \<or> isHighlight r then setInput [] s1 else s1);
          s3 = leaveBreadcrumb ''search-bar-submit'' (SubmitPayload (selected r) (input r)) s2
      in onSubmit (selected r) (input r) s3)"

definition handleOnChange :: "props \<Rightarrow> string \<Rightarrow> state \<Rightarrow> state" where
  "handleOnChange p v s =
     (let s1 = setInput v s
      in if validator p v then debouncedHandleOnChangeCallback v s1 else s1)"

definition handleChangeSelect :: "SearchBarActions \<Rightarrow> state \<Rightarrow> state" where
  "handleChangeSelect m s = leaveBreadcrumb ''search-bar-select'' (SelectPayload m) (setSelected m s)"

definition onKeyPress :: "props \<Rightarrow> render \<Rightarrow> string \<Rightarrow> state \<Rightarrow> state" where
  "onKeyPress p r k s = (if k = ''Enter'' \<and> isValid p r then handleOnSubmit r s else s)"

text \<open>The handler of Ctrl+F: focus the input and select its text, when the ref is set.\<close>

definition focusInput :: "state \<Rightarrow> state" where
  "focusInput s = (if inputRef_current s then s\<lparr>focused := True\<rparr> else s)"

text \<open>The handler of Ctrl+S: select the action after the current one.\<close>

definition nextAction :: "SearchBarActions \<Rightarrow> SearchBarActions option" where
  "nextAction m =
     (let SearchBarActionValues = Object_values SearchBarActions_entries;
          keyIndex = js_rem (indexOf SearchBarActionValues m + 1)
                       (int (length SearchBarActionValues))
      in case array_get (Object_keys SearchBarActions_entries) keyIndex of
           None \<Rightarrow> None
         | Some nextKey \<Rightarrow> map_of SearchBarActions_entries nextKey)"

definition selectNext :: "render \<Rightarrow> state \<Rightarrow> state" where
  "selectNext r s = (case nextAction (selected r) of None \<Rightarrow> s | Some m \<Rightarrow> setSelected m s)"

text \<open>
  Modelled from the spec: the hook \<open>useKeyboardShortcut\<close> (module \<open>hooks\<close>) is not part of
  the sources. The spec describes it as registering a binding from a key with modifiers to
  a handler, with the options \<open>disabled\<close> and \<open>ignoreFocus\<close>: a disabled binding does
  nothing, and a binding without \<open>ignoreFocus\<close> does nothing while an input has focus.
\<close>

definition useKeyboardShortcut :: "bool \<Rightarrow> bool \<Rightarrow> (state \<Rightarrow> state) \<Rightarrow> state \<Rightarrow> state" where
  "useKeyboardShortcut dis ignoreFocus cb s =
     (if dis then s else if \<not> ignoreFocus \<and> focused s then s else cb s)"

subsection \<open>Rendering and events\<close>

text \<open>
  A render after a state update. \<open>useMemo\<close> makes a new debounced function when
  \<open>selected\<close> differs from the one the stored function was made for (the identity of the
  prop \<open>onChange\<close>, the second dependency, is taken not to change while the component is
  mounted); the function it replaces is dropped, not cancelled. Then the effect with the
  dependency \<open>isSearch\<close> runs if that value changed, with the \<open>handleOnSubmit\<close> of this
  render. In Search mode \<open>handleOnSubmit\<close> sets no state, so no further render follows.
\<close>

definition rerender :: "state \<Rightarrow> state" where
  "rerender s =
     (let s1 = (if fn_selected (memo s) \<noteq> selected_cell s
                then s\<lparr>memo := debounce (selected_cell s) 1000\<rparr> else s);
          r = render_of s1
      in if effect_dep s1 \<noteq> isSearch r
         then (let s2 = s1\<lparr>effect_dep := isSearch r\<rparr>
               in if isSearch r \<and> length (input r) > 0 then handleOnSubmit r s2 else s2)
         else s1)"

text \<open>
  What the user and the clock can do. The select and the input carry the prop
  \<open>disabled\<close>; the submit button is rendered only while the input is valid, and is disabled
  when the bar is disabled or the input empty.
\<close>

datatype event =
    Change string
  | SelectOption SearchBarActions
  | KeyPress string
  | ClickSubmit
  | CtrlF
  | CtrlS
  | Advance nat

fun dispatch :: "props \<Rightarrow> event \<Rightarrow> state \<Rightarrow> state" where
  "dispatch p (Change v) s = (if disabled p then s else handleOnChange p v s)"
| "dispatch p (SelectOption m) s = (if disabled p then s else handleChangeSelect m s)"
| "dispatch p (KeyPress k) s = (if disabled p then s else onKeyPress p (render_of s) k s)"
| "dispatch p ClickSubmit s =
     (if isValid p (render_of s) \<and> \<not> (disabled p \<or> length (input (render_of s)) = 0)
      then handleOnSubmit (render_of s) s else s)"
| "dispatch p CtrlF s = useKeyboardShortcut (disabled p) True focusInput s"
| "dispatch p CtrlS s = useKeyboardShortcut (disabled p) True (selectNext (render_of s)) s"
| "dispatch p (Advance dt) s = advance dt s"

fun step :: "props \<Rightarrow> event \<Rightarrow> state \<Rightarrow> state" where
  "step p (Advance dt) s = advance dt s"
| "step p e s = rerender (dispatch p e s)"

definition run :: "props \<Rightarrow> event list \<Rightarrow> state \<Rightarrow> state" where
  "run p es s = fold (step p) es s"

text \<open>
  The component after mounting: empty input, Search selected, the effect has run once
  (with an empty input it submits nothing), no timer set.
\<close>

definition mounted :: state where
  "mounted = \<lparr>input_cell = [], selected_cell = Search, memo = debounce Search 1000,
     effect_dep = True, inputRef_current = True, focused = False,
     clock = 0, next_tid = 0, timers = [], trace = []\<rparr>"

text \<open>The state is the one a render left: the memo and the effect are up to date.\<close>

definition rendered :: "state \<Rightarrow> bool" where
  "rendered s \<longleftrightarrow>
     fn_selected (memo s) = selected_cell s \<and> wait (memo s) = 1000 \<and>
     effect_dep s = (selected_cell s = Search)"

text \<open>Every pending timer is the one the current debounced function set last.\<close>

definition no_stale :: "state \<Rightarrow> bool" where
  "no_stale s \<longleftrightarrow> list_all (\<lambda>t. timeout (memo s) = Some (tid t)) (timers s)"

text \<open>The \<open>onChange\<close> and \<open>onSubmit\<close> calls of a trace, in order.\<close>

fun onChanges :: "effect list \<Rightarrow> (SearchBarActions \<times> string) list" where
  "onChanges [] = []"
| "onChanges (OnChange m v # es) = (m, v) # onChanges es"
| "onChanges (_ # es) = onChanges es"

fun onSubmits :: "effect list \<Rightarrow> (SearchBarActions \<times> string) list" where
  "onSubmits [] = []"
| "onSubmits (OnSubmit m v # es) = (m, v) # onSubmits es"
| "onSubmits (_ # es) = onSubmits es"


text \<open>The events that never change the mode.\<close>

fun keeps_mode :: "event \<Rightarrow> bool" where
  "keeps_mode (SelectOption m) = False"
| "keeps_mode CtrlS = False"
| "keeps_mode e = True"

text \<open>
  Exactly one timer is pending: the one the current debounced function set, due at \<open>d\<close>,
  for \<open>onChange(m, v)\<close>.
\<close>

definition pending_only :: "state \<Rightarrow> nat \<Rightarrow> SearchBarActions \<Rightarrow> string \<Rightarrow> bool" where
  "pending_only s d m v \<longleftrightarrow>
     (\<exists>i. timers s = [\<lparr>tid = i, due = d, cb_selected = m, cb_value = v\<rparr>] \<and>
          timeout (memo s) = Some i)"

text \<open>
  Props used in examples: the bar is enabled and the validator rejects the pattern
  \<open>(\<close>, which is not a regular expression, and accepts everything else.
\<close>

definition example_props :: props where
  "example_props =
     \<lparr>disabled = False, validator = (\<lambda>v. v \<noteq> ''(''), validatorMessage = ''Invalid Input''\<rparr>"

section \<open>The log line row (AnsiiRow)\<close>

text \<open>
  Modelled from the spec: the component \<open>AnsiiRow\<close> is not part of the sources, only its
  tests are. The definitions below follow section 4.2 of the spec, steps 1, 2 and 5, and
  the invariants of its data model: the row resolves the text of its line through
  \<open>getLine\<close>; it renders nothing when the text is undefined and a container otherwise;
  when a search term is set, matches the text and the line index satisfies the highlight
  range (both bounds inclusive, no upper bound when \<open>upperRange\<close> is absent, every index
  when no range is supplied), the matching substring is wrapped in a highlight element.
  The search term is a literal pattern matched without regard to the case of ASCII
  letters, as the pattern of the tests is. ANSI colours and links (steps 3 and 4) do not
  change whether a container or a highlight element is rendered and are left out.
\<close>

record HighlightRange =
  lowerRange :: nat
  upperRange :: "nat option"

record row_data =
  getLine :: "nat \<Rightarrow> string option"
  searchTerm :: "string option"
  lineRange :: "HighlightRange option"

text \<open>The children of the row's container: plain text and highlight elements.\<close>

datatype piece = Plain string | Mark string

fun piece_text :: "piece \<Rightarrow> string" where
  "piece_text (Plain t) = t"
| "piece_text (Mark t) = t"

definition textContent :: "piece list \<Rightarrow> string" where
  "textContent ps = concat (map piece_text ps)"

fun is_Mark :: "piece \<Rightarrow> bool" where
  "is_Mark (Mark t) = True"
| "is_Mark (Plain t) = False"

definition lower :: "char \<Rightarrow> char" where
  "lower c =
     (if (65::nat) \<le> of_char c \<and> of_char c \<le> (90::nat)
      then char_of (of_char c + (32::nat)) else c)"

text \<open>
  The offset of the leftmost occurrence of the pattern in the text, and the same for a
  pattern matched without regard to case: both sides are compared in lower case.
\<close>

fun find_sub :: "string \<Rightarrow> string \<Rightarrow> nat option" where
  "find_sub pat [] = (if pat = [] then Some 0 else None)"
| "find_sub pat (c # cs) =
     (if take (length pat) (c # cs) = pat then Some 0 else map_option Suc (find_sub pat cs))"

definition find_ci :: "string \<Rightarrow> string \<Rightarrow> nat option" where
  "find_ci pat text = find_sub (map lower pat) (map lower text)"

definition isLineInRange :: "HighlightRange option \<Rightarrow> nat \<Rightarrow> bool" where
  "isLineInRange r lineNumber =
     (case r of
        None \<Rightarrow> True
      | Some rg \<Rightarrow>
          lowerRange rg \<le> lineNumber \<and>
          (case upperRange rg of None \<Rightarrow> True | Some u \<Rightarrow> lineNumber \<le> u))"

definition highlight :: "string \<Rightarrow> string \<Rightarrow> piece list" where
  "highlight pat text =
     (case find_ci pat text of
        None \<Rightarrow> [Plain text]
      | Some k \<Rightarrow>
          [Plain (take k text), Mark (take (length pat) (drop k text)),
           Plain (drop (k + length pat) text)])"

definition AnsiiRow :: "row_data \<Rightarrow> nat \<Rightarrow> piece list option" where
  "AnsiiRow d lineNumber =
     (case getLine d lineNumber of
        None \<Rightarrow> None
      | Some text \<Rightarrow>
          Some (case (if isLineInRange (lineRange d) lineNumber then searchTerm d else None) of
                  None \<Rightarrow> [Plain text]
                | Some pat \<Rightarrow> highlight pat text))"

text \<open>The highlight decoration is applied to the row of a line.\<close>

definition highlighted :: "row_data \<Rightarrow> nat \<Rightarrow> bool" where
  "highlighted d lineNumber =
     (case AnsiiRow d lineNumber of None \<Rightarrow> False | Some ps \<Rightarrow> list_ex is_Mark ps)"

text \<open>The text contains a part equal to the pattern up to the case of letters.\<close>

definition matches_ci :: "string \<Rightarrow> string \<Rightarrow> bool" where
  "matches_ci pat text \<longleftrightarrow>
     (\<exists>pre mid post. text = pre @ mid @ post \<and> map lower mid = map lower pat)"

text \<open>
  The data of the tests: their ten log lines, a \<open>getLine\<close> that reads the array of lines
  and is undefined outside it, the search term of the highlight tests, and a range with
  lower bound 0 and the given upper bound.
\<close>

definition logLines :: "string list" where
  \<open>logLines =
     [''[2022/08/30 14:53:58.774] [grip] 2022/08/30 14:53:17 [p=debug]: [commit=\'536cdcab21b907c87cd14751ad523ad1d8f23d07\' operation=\'github api query\' query=\'536cdcab21b907c87cd14751ad523ad1d8f23d07\' repo=\'evergreen-ci/evergreen\' size=\'-1\' status=\'200 OK\']'',
      ''[2022/08/30 14:53:58.774] [grip] 2022/08/30 14:53:17 [p=debug]: [message=\'created build\' name=\'lint\' project=\'mci\' project_identifier='' @ [CHR 0x27, CHR 0x27] @
        '' runner=\'repotracker\' version=\'_536cdcab21b907c87cd14751ad523ad1d8f23d07\']'',
      ''[2022/08/30 14:53:58.774] [grip] 2022/08/30 14:53:17 [p=debug]: [message=\'created build\' name=\'osx\' project=\'mci\' project_identifier='' @ [CHR 0x27, CHR 0x27] @
        '' runner=\'repotracker\' version=\'_536cdcab21b907c87cd14751ad523ad1d8f23d07\']'',
      ''[2022/08/30 14:53:58.774] [grip] 2022/08/30 14:53:17 [p=debug]: [message=\'created build\' name=\'race-detector\' project=\'mci\' project_identifier='' @ [CHR 0x27, CHR 0x27] @
        '' runner=\'repotracker\' version=\'_536cdcab21b907c87cd14751ad523ad1d8f23d07\']'',
      ''[2022/08/30 14:53:58.774] [grip] 2022/08/30 14:53:17 [p=debug]: [message=\'created build\' name=\'ubuntu1604\' project=\'mci\' project_identifier='' @ [CHR 0x27, CHR 0x27] @
        '' runner=\'repotracker\' version=\'_536cdcab21b907c87cd14751ad523ad1d8f23d07\']'',
      ''[2022/08/30 14:53:58.774] [grip] 2022/08/30 14:53:17 [p=debug]: [message=\'created build\' name=\'ubuntu1804-arm64\' project=\'mci\' project_identifier='' @ [CHR 0x27, CHR 0x27] @
        '' runner=\'repotracker\' version=\'_536cdcab21b907c87cd14751ad523ad1d8f23d07\']'',
      ''[2022/08/30 14:53:58.774] [grip] 2022/08/30 14:53:17 [p=debug]: [message=\'created build\' name=\'windows\' project=\'mci\' project_identifier='' @ [CHR 0x27, CHR 0x27] @
        '' runner=\'repotracker\' version=\'_536cdcab21b907c87cd14751ad523ad1d8f23d07\']'',
      ''[2022/08/30 14:53:58.774] [grip] 2022/08/30 14:53:17 [p=info]: [hash=\'536cdcab21b907c87cd14751ad523ad1d8f23d07\' message=\'successfully created version\' project=\'mci\' runner=\'repotracker\' version=\'_536cdcab21b907c87cd14751ad523ad1d8f23d07\']'',
      ''Some line with a url https://www.google.com'',
      ''some random text that should not be highlighted but highlight me should'']\<close>

definition test_getLine :: "nat \<Rightarrow> string option" where
  "test_getLine index = (if index < length logLines then Some (logLines ! index) else None)"

definition test_data :: "nat option \<Rightarrow> row_data" where
  "test_data u =
     \<lparr>getLine = test_getLine, searchTerm = Some ''highlight me'',
      lineRange = Some \<lparr>lowerRange = 0, upperRange = u\<rparr>\<rparr>"

section \<open>Properties of the search bar\<close>

subsection \<open>Basic facts\<close>

declare step.simps [simp del]

lemmas handler_defs =
  handleOnSubmit_def handleOnChange_def handleChangeSelect_def onKeyPress_def focusInput_def
  selectNext_def useKeyboardShortcut_def setInput_def setSelected_def leaveBreadcrumb_def
  onSubmit_def isFilter_def isHighlight_def isSearch_def isValid_def render_of_def

lemmas timer_defs =
  debouncedHandleOnChangeCallback_def debounced_call_def clearTimeout_def setTimeout_def
  debounce_def

lemma step_event:
  "step p (Change v) s = rerender (dispatch p (Change v) s)"
  "step p (SelectOption m) s = rerender (dispatch p (SelectOption m) s)"
  "step p (KeyPress k) s = rerender (dispatch p (KeyPress k) s)"
  "step p ClickSubmit s = rerender (dispatch p ClickSubmit s)"
  "step p CtrlF s = rerender (dispatch p CtrlF s)"
  "step p CtrlS s = rerender (dispatch p CtrlS s)"
  "step p (Advance dt) s = advance dt s"
  by (simp_all add: step.simps)

lemma run_Nil [simp]: "run p [] s = s"
  by (simp add: run_def)

lemma run_Cons [simp]: "run p (e # es) s = run p es (step p e s)"
  by (simp add: run_def)

lemma run_append [simp]: "run p (es @ fs) s = run p fs (run p es s)"
  by (simp add: run_def)

lemma nextAction_simps [simp]:
  "nextAction Search = Some Filter"
  "nextAction Filter = Some Highlight"
  "nextAction Highlight = Some Search"
  by (simp_all add: nextAction_def SearchBarActions_entries_def Object_values_def
      Object_keys_def indexOf_def js_rem_def array_get_def)

lemma onSubmits_append: "onSubmits (xs @ ys) = onSubmits xs @ onSubmits ys"
  by (induction xs rule: onSubmits.induct) simp_all

lemma onChanges_append: "onChanges (xs @ ys) = onChanges xs @ onChanges ys"
  by (induction xs rule: onChanges.induct) simp_all

lemma onSubmits_fired: "onSubmits (map (\<lambda>t. OnChange (f t) (g t)) ts) = []"
  by (induction ts) simp_all

lemma onChanges_fired:
  "onChanges (map (\<lambda>t. OnChange (f t) (g t)) ts) = map (\<lambda>t. (f t, g t)) ts"
  by (induction ts) simp_all

lemma fold_onChange:
  "fold (\<lambda>t. onChange (cb_selected t) (cb_value t)) ts s =
     s\<lparr>trace := trace s @ map (\<lambda>t. OnChange (cb_selected t) (cb_value t)) ts\<rparr>"
  by (induction ts arbitrary: s) (simp_all add: onChange_def)

lemma advance_eq:
  "advance dt s =
     s\<lparr>clock := clock s + dt,
       timers := filter (\<lambda>t. \<not> due t \<le> clock s + dt) (timers s),
       trace := trace s @ map (\<lambda>t. OnChange (cb_selected t) (cb_value t))
                  (sort_key due (filter (\<lambda>t. due t \<le> clock s + dt) (timers s)))\<rparr>"
  by (simp add: advance_def Let_def fold_onChange)

lemma rerender_rendered: "rendered s \<Longrightarrow> rerender s = s"
  by (simp add: rerender_def rendered_def isSearch_def render_of_def)

lemma selected_rerender [simp]: "selected_cell (rerender s) = selected_cell s"
  by (simp add: rerender_def handler_defs Let_def)

lemma rendered_mounted: "rendered mounted"
  by (simp add: rendered_def mounted_def debounce_def)

lemma no_stale_mounted: "no_stale mounted"
  by (simp add: no_stale_def mounted_def)

text \<open>Every step from a rendered state ends in a rendered state.\<close>

lemma rendered_rerender: "wait (memo s) = 1000 \<Longrightarrow> rendered (rerender s)"
  by (simp add: rerender_def rendered_def handler_defs Let_def debounce_def)

lemma wait_dispatch: "wait (memo s) = 1000 \<Longrightarrow> wait (memo (dispatch p e s)) = 1000"
  by (cases e)
    (simp_all add: handler_defs timer_defs Let_def advance_eq split: option.splits prod.splits)

lemma rendered_step:
  assumes "rendered s"
  shows "rendered (step p e s)"
proof -
  from assms have w: "wait (memo (dispatch p e s)) = 1000"
    by (simp add: wait_dispatch rendered_def)
  show ?thesis
  proof (cases e)
    case (Advance dt)
    with assms show ?thesis
      by (simp add: step_event advance_eq rendered_def)
  qed (insert w, simp_all add: step_event rendered_rerender)
qed

lemma rendered_run: "rendered s \<Longrightarrow> rendered (run p es s)"
  by (induction es arbitrary: s) (simp_all add: rendered_step)

subsection \<open>Submitting\<close>

text \<open>
  While the pattern is invalid, neither a key press nor a click on the submit button calls
  \<open>onSubmit\<close>.
\<close>

lemma invalid_blocks_enter_and_click:
  assumes "rendered s" "\<not> validator p (input_cell s)"
  shows "onSubmits (trace (step p (KeyPress k) s)) = onSubmits (trace s)"
    and "onSubmits (trace (step p ClickSubmit s)) = onSubmits (trace s)"
  using assms by (simp_all add: step_event handler_defs rerender_rendered)

text \<open>
  C1 asks that no event calls \<open>onSubmit\<close> while the validator rejects the input. The
  component does not meet it: the effect that submits on a change to Search mode does not
  ask the validator. With Filter selected and the rejected pattern \<open>(\<close> typed, nothing
  has been submitted; selecting Search then calls \<open>onSubmit\<close> with that pattern.
\<close>

theorem mode_change_submits_invalid_pattern:
  "\<not> validator example_props (input_cell (run example_props [SelectOption Filter, Change ''(''] mounted)) \<and>
   onSubmits (trace (run example_props [SelectOption Filter, Change ''(''] mounted)) = [] \<and>
   onSubmits (trace (run example_props [SelectOption Filter, Change ''('', SelectOption Search] mounted))
     = [(Search, ''('')]"
  by code_simp

text \<open>
  C5: a submit clears the pattern when Filter or Highlight is selected, and only then:
  with Search selected the pattern is kept.
\<close>

theorem submit_clears_pattern:
  "(selected r = Filter \<or> selected r = Highlight \<longrightarrow> input_cell (handleOnSubmit r s) = []) \<and>
   (selected r = Search \<longrightarrow> input_cell (handleOnSubmit r s) = input_cell s)"
  by (simp add: handler_defs Let_def)

theorem submit_clears_pattern_witness:
  "input_cell (handleOnSubmit \<lparr>input = ''err'', selected = Filter\<rparr> (mounted\<lparr>input_cell := ''err''\<rparr>)) = [] \<and>
   input_cell (handleOnSubmit \<lparr>input = ''err'', selected = Highlight\<rparr> (mounted\<lparr>input_cell := ''err''\<rparr>)) = [] \<and>
   input_cell (handleOnSubmit \<lparr>input = ''err'', selected = Search\<rparr> (mounted\<lparr>input_cell := ''err''\<rparr>)) = ''err''"
  using submit_clears_pattern [of "\<lparr>input = ''err'', selected = Filter\<rparr>" "mounted\<lparr>input_cell := ''err''\<rparr>"]
    submit_clears_pattern [of "\<lparr>input = ''err'', selected = Highlight\<rparr>" "mounted\<lparr>input_cell := ''err''\<rparr>"]
    submit_clears_pattern [of "\<lparr>input = ''err'', selected = Search\<rparr>" "mounted\<lparr>input_cell := ''err''\<rparr>"]
  by (simp add: mounted_def)

text \<open>
  C9: a submit in Filter or Highlight mode records in the breadcrumb and passes to
  \<open>onSubmit\<close> the pattern of the render in which it fired, although the same submit
  empties the input.
\<close>

theorem submit_passes_pattern_before_clearing:
  "selected r = Filter \<or> selected r = Highlight \<Longrightarrow>
     trace (handleOnSubmit r s) =
       trace s @ [LeaveBreadcrumb ''search-bar-submit'' (SubmitPayload (selected r) (input r)),
                  OnSubmit (selected r) (input r)] \<and>
     input_cell (handleOnSubmit r s) = []"
  by (auto simp add: handler_defs Let_def)

theorem submit_passes_pattern_before_clearing_witness:
  "(selected \<lparr>input = ''err'', selected = Filter\<rparr> = Filter \<or>
    selected \<lparr>input = ''err'', selected = Filter\<rparr> = Highlight) \<and>
   render_of (run example_props [SelectOption Filter, Change ''err''] mounted) =
     \<lparr>input = ''err'', selected = Filter\<rparr> \<and>
   step example_props (KeyPress ''Enter'')
       (run example_props [SelectOption Filter, Change ''err''] mounted) =
     handleOnSubmit \<lparr>input = ''err'', selected = Filter\<rparr>
       (run example_props [SelectOption Filter, Change ''err''] mounted) \<and>
   trace (handleOnSubmit \<lparr>input = ''err'', selected = Filter\<rparr>
       (run example_props [SelectOption Filter, Change ''err''] mounted)) =
     [LeaveBreadcrumb ''search-bar-select'' (SelectPayload Filter),
      LeaveBreadcrumb ''search-bar-submit'' (SubmitPayload Filter ''err''),
      OnSubmit Filter ''err''] \<and>
   input_cell (handleOnSubmit \<lparr>input = ''err'', selected = Filter\<rparr>
       (run example_props [SelectOption Filter, Change ''err''] mounted)) = []"
  (is "?h \<and> ?r \<and> ?e \<and> ?t \<and> ?i")
proof -
  let ?s = "run example_props [SelectOption Filter, Change ''err''] mounted"
  have h: ?h by simp
  have r: ?r by code_simp
  have e: ?e by code_simp
  have t: "trace ?s = [LeaveBreadcrumb ''search-bar-select'' (SelectPayload Filter)]"
    by code_simp
  note c = submit_passes_pattern_before_clearing [OF h, of ?s]
  have ti: "?t \<and> ?i" using c unfolding t by simp
  show ?thesis using h r e ti by blast
qed

text \<open>
  C4: a step that changes the mode into Search calls \<open>onSubmit\<close> exactly once, with the
  pattern, when the pattern is not empty, and not at all when it is empty; a step that
  does not change the mode into Search and is not itself a submit (Enter, a click on the
  submit button) calls \<open>onSubmit\<close> not at all, whatever it renders.
\<close>

theorem auto_submit_once_per_transition:
  assumes "rendered s"
  shows "(selected_cell s \<noteq> Search \<and> selected_cell (step p e s) = Search \<longrightarrow>
            onSubmits (trace (step p e s)) =
              onSubmits (trace s) @ (if input_cell s = [] then [] else [(Search, input_cell s)])) \<and>
         (\<not> (selected_cell s \<noteq> Search \<and> selected_cell (step p e s) = Search) \<and>
            e \<noteq> ClickSubmit \<and> e \<noteq> KeyPress ''Enter'' \<longrightarrow>
            onSubmits (trace (step p e s)) = onSubmits (trace s))"
  using assms
  by (cases e)
    (auto simp add: step_event rendered_def rerender_def handler_defs timer_defs Let_def
      onSubmits_append advance_eq onSubmits_fired
      split: option.splits SearchBarActions.splits prod.splits)

theorem auto_submit_once_per_transition_witness:
  "rendered (run example_props [SelectOption Highlight, Change ''err''] mounted) \<and>
   selected_cell (run example_props [SelectOption Highlight, Change ''err''] mounted) \<noteq> Search \<and>
   selected_cell (step example_props CtrlS
     (run example_props [SelectOption Highlight, Change ''err''] mounted)) = Search \<and>
   onSubmits (trace (run example_props [SelectOption Highlight, Change ''err''] mounted)) = [] \<and>
   onSubmits (trace (step example_props CtrlS
     (run example_props [SelectOption Highlight, Change ''err''] mounted))) = [(Search, ''err'')] \<and>
   onSubmits (trace (step example_props (Change ''erro'') (step example_props CtrlS
     (run example_props [SelectOption Highlight, Change ''err''] mounted)))) = [(Search, ''err'')]"
  (is "?r \<and> ?a \<and> ?b \<and> ?c \<and> ?d \<and> ?e")
proof -
  let ?s = "run example_props [SelectOption Highlight, Change ''err''] mounted"
  let ?t = "step example_props CtrlS ?s"
  have r: "rendered ?s" by (rule rendered_run [OF rendered_mounted])
  have rt: "rendered ?t" by (rule rendered_step [OF r])
  have a: ?a by code_simp
  have b: ?b by code_simp
  have c: ?c by code_simp
  have i: "input_cell ?s = ''err''" by code_simp
  have d: ?d
    using auto_submit_once_per_transition [OF r, of example_props CtrlS] a b
    unfolding c i by simp
  have n: "Change ''erro'' \<noteq> ClickSubmit \<and> Change ''erro'' \<noteq> KeyPress ''Enter''" by simp
  have e: ?e
    using auto_submit_once_per_transition [OF rt, of example_props "Change ''erro''"] b n
    unfolding d by blast
  show ?thesis using r a b c d e by blast
qed

text \<open>
  C6: while the bar is enabled, Ctrl+S selects the next mode in the order Search, Filter,
  Highlight, and Search again after Highlight, in every state and so wherever the focus
  is; pressing it three times gives the mode it started from.
\<close>

theorem ctrl_s_cycles:
  "\<not> disabled p \<Longrightarrow>
     selected_cell (step p CtrlS s) =
       (case selected_cell s of Search \<Rightarrow> Filter | Filter \<Rightarrow> Highlight | Highlight \<Rightarrow> Search) \<and>
     selected_cell (step p CtrlS (s\<lparr>focused := f\<rparr>)) = selected_cell (step p CtrlS s) \<and>
     selected_cell (step p CtrlS (step p CtrlS (step p CtrlS s))) = selected_cell s"
  by (cases "selected_cell s") (simp_all add: step_event handler_defs)

theorem ctrl_s_cycles_witness:
  "\<not> disabled example_props \<and>
   selected_cell (step example_props CtrlS mounted) = Filter \<and>
   selected_cell (step example_props CtrlS (mounted\<lparr>focused := True\<rparr>)) = Filter \<and>
   selected_cell (step example_props CtrlS (step example_props CtrlS (step example_props CtrlS mounted)))
     = Search"
proof -
  have h: "\<not> disabled example_props" by (simp add: example_props_def)
  have m: "selected_cell mounted = Search" by (simp add: mounted_def)
  show ?thesis
    using h ctrl_s_cycles [OF h, of mounted True] by (simp add: m)
qed

subsection \<open>Debounced changes\<close>

lemma no_stale_filter:
  "no_stale s \<Longrightarrow> filter (\<lambda>t. Some (tid t) \<noteq> timeout (memo s)) (timers s) = []"
  by (auto simp add: no_stale_def list_all_iff filter_empty_conv)

text \<open>A valid edit clears the timer of the current debounced function and sets a new one.\<close>

lemma change_valid:
  assumes "rendered s" "\<not> disabled p" "validator p v"
  shows "step p (Change v) s =
     s\<lparr>input_cell := v, memo := (memo s)\<lparr>timeout := Some (next_tid s)\<rparr>,
       next_tid := next_tid s + 1,
       timers := filter (\<lambda>t. Some (tid t) \<noteq> timeout (memo s)) (timers s) @
                 [\<lparr>tid = next_tid s, due = clock s + 1000,
                   cb_selected = selected_cell s, cb_value = v\<rparr>]\<rparr>"
proof -
  have d: "dispatch p (Change v) s =
     s\<lparr>input_cell := v, memo := (memo s)\<lparr>timeout := Some (next_tid s)\<rparr>,
       next_tid := next_tid s + 1,
       timers := filter (\<lambda>t. Some (tid t) \<noteq> timeout (memo s)) (timers s) @
                 [\<lparr>tid = next_tid s, due = clock s + 1000,
                   cb_selected = selected_cell s, cb_value = v\<rparr>]\<rparr>"
    using assms
    by (simp add: handleOnChange_def setInput_def timer_defs Let_def rendered_def)
  have "rendered (dispatch p (Change v) s)"
    using assms(1) unfolding d by (simp add: rendered_def)
  then show ?thesis
    using d by (simp add: step_event rerender_rendered)
qed

text \<open>An invalid edit only updates the input: it touches no timer.\<close>

lemma change_invalid:
  assumes "rendered s" "\<not> disabled p" "\<not> validator p v"
  shows "step p (Change v) s = s\<lparr>input_cell := v\<rparr>"
proof -
  have d: "dispatch p (Change v) s = s\<lparr>input_cell := v\<rparr>"
    using assms by (simp add: handleOnChange_def setInput_def)
  have "rendered (dispatch p (Change v) s)"
    using assms(1) unfolding d by (simp add: rendered_def)
  then show ?thesis
    using d by (simp add: step_event rerender_rendered)
qed

lemma pending_only_no_stale: "pending_only s d m v \<Longrightarrow> no_stale s"
  by (auto simp add: pending_only_def no_stale_def)

lemma change_pending:
  assumes "rendered s" "no_stale s" "\<not> disabled p" "validator p v"
  shows "rendered (step p (Change v) s)"
    and "pending_only (step p (Change v) s) (clock s + 1000) (selected_cell s) v"
    and "trace (step p (Change v) s) = trace s"
    and "selected_cell (step p (Change v) s) = selected_cell s"
    and "clock (step p (Change v) s) = clock s"
    and "input_cell (step p (Change v) s) = v"
  using assms(1) no_stale_filter [OF assms(2)]
  unfolding change_valid [OF assms(1,3,4)]
  by (simp_all add: rendered_def pending_only_def)

lemma advance_waiting:
  assumes "pending_only s d m v" "clock s + dt < d"
  shows "pending_only (advance dt s) d m v"
    and "trace (advance dt s) = trace s"
    and "selected_cell (advance dt s) = selected_cell s"
    and "clock (advance dt s) = clock s + dt"
    and "input_cell (advance dt s) = input_cell s"
    and "rendered (advance dt s) = rendered s"
  using assms by (auto simp add: advance_eq pending_only_def rendered_def)

lemma advance_fires:
  assumes "pending_only s d m v" "d \<le> clock s + dt"
  shows "trace (advance dt s) = trace s @ [OnChange m v]"
    and "timers (advance dt s) = []"
    and "input_cell (advance dt s) = input_cell s"
  using assms by (auto simp add: advance_eq pending_only_def)


text \<open>
  No timer of an earlier debounced function is pending after mounting, whenever no timer
  is pending at all, and after any step that leaves the mode unchanged: such a timer is
  left behind only by a change of mode while a debounced call is pending.
\<close>

lemma no_stale_empty: "timers s = [] \<Longrightarrow> no_stale s"
  by (simp add: no_stale_def)

lemma no_stale_step:
  assumes "rendered s" "no_stale s" "selected_cell (step p e s) = selected_cell s"
  shows "no_stale (step p e s)"
proof (cases e)
  case (Change v)
  show ?thesis
  proof (cases "\<not> disabled p \<and> validator p v")
    case True
    then have "pending_only (step p (Change v) s) (clock s + 1000) (selected_cell s) v"
      using change_pending(2) [OF assms(1,2)] by simp
    then show ?thesis unfolding Change by (rule pending_only_no_stale)
  next
    case False
    then have "dispatch p (Change v) s = s \<or> dispatch p (Change v) s = s\<lparr>input_cell := v\<rparr>"
      by (auto simp add: handleOnChange_def setInput_def)
    then have "step p (Change v) s = s \<or> step p (Change v) s = s\<lparr>input_cell := v\<rparr>"
      using assms(1) by (auto simp add: step_event rerender_rendered rendered_def)
    then show ?thesis
      using assms(2) unfolding Change by (auto simp add: no_stale_def)
  qed
next
  case (SelectOption m)
  from assms(3) have "disabled p \<or> m = selected_cell s"
    by (auto simp add: SelectOption step_event handler_defs split: if_splits)
  then show ?thesis
    using assms(1,2)
    by (auto simp add: SelectOption step_event rerender_def handler_defs Let_def rendered_def
        no_stale_def)
next
  case (KeyPress k)
  then show ?thesis
    using assms
    by (auto simp add: step_event rerender_def handler_defs Let_def rendered_def no_stale_def)
next
  case ClickSubmit
  then show ?thesis
    using assms
    by (auto simp add: step_event rerender_def handler_defs Let_def rendered_def no_stale_def)
next
  case CtrlF
  then show ?thesis
    using assms
    by (auto simp add: step_event rerender_def handler_defs Let_def rendered_def no_stale_def)
next
  case CtrlS
  from assms(3) have "disabled p"
    by (cases "selected_cell s") (auto simp add: CtrlS step_event handler_defs split: if_splits)
  then show ?thesis
    using assms(1,2)
    by (simp add: CtrlS step_event handler_defs rerender_rendered)
next
  case (Advance dt)
  then show ?thesis
    using assms(2) by (simp add: step_event advance_eq no_stale_def list_all_iff)
qed

lemma keeps_mode_selected: "keeps_mode e \<Longrightarrow> selected_cell (step p e s) = selected_cell s"
  by (cases e)
    (simp_all add: step_event handler_defs timer_defs Let_def advance_eq split: prod.splits)

lemma no_stale_run:
  "rendered s \<Longrightarrow> no_stale s \<Longrightarrow> list_all keeps_mode es \<Longrightarrow> no_stale (run p es s)"
proof (induction es arbitrary: s)
  case Nil
  then show ?case by simp
next
  case (Cons e es)
  from Cons.prems(3) have e: "keeps_mode e" and es: "list_all keeps_mode es" by simp_all
  have "no_stale (step p e s)"
    by (rule no_stale_step [OF Cons.prems(1,2) keeps_mode_selected [OF e]])
  from Cons.IH [OF rendered_step [OF Cons.prems(1)] this es] show ?case by simp
qed




text \<open>
  C10: a valid edit followed within the window by an invalid one. The invalid edit changes
  the displayed pattern and leaves the pending timer alone, so \<open>onChange\<close> is called
  with the earlier, valid value while the input shows the later, invalid one.
\<close>

theorem invalid_edit_keeps_pending:
  assumes "rendered s" "no_stale s" "\<not> disabled p" "validator p a" "\<not> validator p b"
    and "d < 1000" "1000 \<le> d + w"
  shows "input_cell (run p [Change a, Advance d, Change b] s) = b \<and>
         trace (run p [Change a, Advance d, Change b] s) = trace s \<and>
         trace (run p [Change a, Advance d, Change b, Advance w] s) =
           trace s @ [OnChange (selected_cell s) a] \<and>
         input_cell (run p [Change a, Advance d, Change b, Advance w] s) = b \<and> a \<noteq> b"
proof -
  let ?c = "step p (Change a) s"
  let ?a = "advance d ?c"
  let ?i = "step p (Change b) ?a"
  note c = change_pending [OF assms(1-4)]
  from assms(6) have lt: "clock ?c + d < clock s + 1000" using c(5) by simp
  note a = advance_waiting [OF c(2) lt]
  have ra: "rendered ?a" using a(6) c(1) by simp
  have i: "?i = ?a\<lparr>input_cell := b\<rparr>"
    by (rule change_invalid [OF ra assms(3) assms(5)])
  have pi: "pending_only ?i (clock s + 1000) (selected_cell s) a"
    using a(1) unfolding i by (simp add: pending_only_def)
  have ci: "clock ?i = clock s + d" using a(4) c(5) unfolding i by simp
  have ti: "trace ?i = trace s" using a(2) c(3) unfolding i by simp
  have ii: "input_cell ?i = b" unfolding i by simp
  from assms(7) ci have ge: "clock s + 1000 \<le> clock ?i + w" by simp
  note f = advance_fires [OF pi ge]
  from assms(4,5) have "a \<noteq> b" by auto
  then show ?thesis using f(1) f(3) ti ii by (simp add: step_event)
qed

theorem invalid_edit_keeps_pending_witness:
  "rendered mounted \<and> no_stale mounted \<and> \<not> disabled example_props \<and>
   validator example_props [] \<and> \<not> validator example_props ''('' \<and>
   (500 :: nat) < 1000 \<and> (1000 :: nat) \<le> 500 + 500 \<and>
   input_cell (run example_props [Change [], Advance 500, Change ''(''] mounted) = ''('' \<and>
   trace (run example_props [Change [], Advance 500, Change ''('', Advance 500] mounted) =
     [OnChange Search []] \<and>
   input_cell (run example_props [Change [], Advance 500, Change ''('', Advance 500] mounted) = ''(''"
  (is "?h1 \<and> ?h2 \<and> ?h3 \<and> ?h4 \<and> ?h5 \<and> ?h6 \<and> ?h7 \<and> ?c1 \<and> ?c2 \<and> ?c3")
proof -
  have h1: ?h1 by (rule rendered_mounted)
  have h2: ?h2 by (rule no_stale_mounted)
  have h3: ?h3 by (simp add: example_props_def)
  have h4: ?h4 by (simp add: example_props_def)
  have h5: ?h5 by (simp add: example_props_def)
  have h6: ?h6 by simp
  have h7: ?h7 by simp
  have m: "trace mounted = []" "selected_cell mounted = Search" by (simp_all add: mounted_def)
  note c = invalid_edit_keeps_pending [OF h1 h2 h3 h4 h5 h6 h7]
  have "?c1 \<and> ?c2 \<and> ?c3" using c unfolding m by simp
  then show ?thesis using h1 h2 h3 h4 h5 h6 h7 by blast
qed

text \<open>A change of mode by the select drops the debounced function; its timer stays.\<close>

lemma select_other_mode:
  assumes "rendered x" "\<not> disabled p" "m \<noteq> selected_cell x"
  shows "selected_cell (step p (SelectOption m) x) = m"
    and "timers (step p (SelectOption m) x) = timers x"
    and "clock (step p (SelectOption m) x) = clock x"
    and "onChanges (trace (step p (SelectOption m) x)) = onChanges (trace x)"
    and "timeout (memo (step p (SelectOption m) x)) = None"
    and "next_tid (step p (SelectOption m) x) = next_tid x"
    and "rendered (step p (SelectOption m) x)"
  using assms
  by (simp_all add: step_event rerender_def handler_defs Let_def rendered_def debounce_def
      onChanges_append)

lemma advance_onChanges:
  "onChanges (trace (advance w y)) =
     onChanges (trace y) @ map (\<lambda>t. (cb_selected t, cb_value t))
       (sort_key due (filter (\<lambda>t. due t \<le> clock y + w) (timers y)))"
  by (simp add: advance_eq onChanges_append onChanges_fired)

text \<open>
  C2, in the form the component meets: a change of mode while a debounced call is pending neither
  cancels the call nor changes its mode. When its timer fires, \<open>onChange\<close> is called
  with the mode that was selected when the edit was made, although another mode is
  selected by then; an edit made after the change of mode is forwarded with the new mode,
  in a call of its own.
\<close>

theorem pending_call_keeps_old_mode:
  assumes "rendered s" "no_stale s" "\<not> disabled p" "validator p v" "validator p v2"
    and "m \<noteq> selected_cell s" "d < 1000" "1000 \<le> w"
  shows "selected_cell (run p [Change v, Advance d, SelectOption m] s) = m \<and>
         onChanges (trace (run p [Change v, Advance d, SelectOption m] s)) = onChanges (trace s) \<and>
         selected_cell (run p [Change v, Advance d, SelectOption m, Advance w] s) = m \<and>
         onChanges (trace (run p [Change v, Advance d, SelectOption m, Advance w] s)) =
           onChanges (trace s) @ [(selected_cell s, v)] \<and>
         onChanges (trace (run p [Change v, Advance d, SelectOption m, Change v2, Advance w] s)) =
           onChanges (trace s) @ [(selected_cell s, v), (m, v2)]"
proof -
  define a where "a = advance d (step p (Change v) s)"
  define b where "b = step p (SelectOption m) a"
  define c where "c = step p (Change v2) b"
  note c0 = change_pending [OF assms(1-4)]
  from assms(7) have lt: "clock (step p (Change v) s) + d < clock s + 1000"
    using c0(5) by simp
  note a0 = advance_waiting [OF c0(2) lt]
  have ra: "rendered a" using a0(6) c0(1) by (simp add: a_def)
  obtain i where ti: "timers a = [\<lparr>tid = i, due = clock s + 1000,
      cb_selected = selected_cell s, cb_value = v\<rparr>]"
    using a0(1) by (auto simp add: pending_only_def a_def)
  have sa: "selected_cell a = selected_cell s" using a0(3) c0(4) by (simp add: a_def)
  have ca: "clock a = clock s + d" using a0(4) c0(5) by (simp add: a_def)
  have ta: "trace a = trace s" using a0(2) c0(3) by (simp add: a_def)
  from assms(6) sa have ne: "m \<noteq> selected_cell a" by simp
  note b0 = select_other_mode [OF ra assms(3) ne, folded b_def]
  have 3: "onChanges (trace (advance w b)) = onChanges (trace s) @ [(selected_cell s, v)]"
    using assms(7,8) by (simp add: advance_onChanges b0 ti ca ta)
  have sel3: "selected_cell (advance w b) = m"
    using b0(1) by (simp add: advance_eq)
  have c1: "c = b\<lparr>input_cell := v2, memo := (memo b)\<lparr>timeout := Some (next_tid b)\<rparr>,
       next_tid := next_tid b + 1,
       timers := filter (\<lambda>t. Some (tid t) \<noteq> timeout (memo b)) (timers b) @
                 [\<lparr>tid = next_tid b, due = clock b + 1000,
                   cb_selected = selected_cell b, cb_value = v2\<rparr>]\<rparr>"
    unfolding c_def by (rule change_valid [OF b0(7) assms(3) assms(5)])
  have 4: "onChanges (trace (advance w c)) = onChanges (trace s) @ [(selected_cell s, v), (m, v2)]"
    using assms(7,8) by (simp add: advance_onChanges c1 b0 ti ca ta)
  have "run p [Change v, Advance d, SelectOption m] s = b"
    by (simp add: step_event a_def b_def)
  moreover have "run p [Change v, Advance d, SelectOption m, Advance w] s = advance w b"
    by (simp add: step_event a_def b_def)
  moreover have "run p [Change v, Advance d, SelectOption m, Change v2, Advance w] s = advance w c"
    by (simp add: step_event a_def b_def c_def)
  ultimately show ?thesis using b0(1) b0(4) ta 3 sel3 4 by simp
qed

theorem pending_call_keeps_old_mode_witness:
  "rendered mounted \<and> no_stale mounted \<and> \<not> disabled example_props \<and>
   validator example_props ''err'' \<and> validator example_props ''warn'' \<and>
   Filter \<noteq> selected_cell mounted \<and> (500 :: nat) < 1000 \<and> (1000 :: nat) \<le> 1000 \<and>
   selected_cell (run example_props
     [Change ''err'', Advance 500, SelectOption Filter, Advance 1000] mounted) = Filter \<and>
   onChanges (trace (run example_props
     [Change ''err'', Advance 500, SelectOption Filter, Advance 1000] mounted)) =
     [(Search, ''err'')] \<and>
   onChanges (trace (run example_props
     [Change ''err'', Advance 500, SelectOption Filter, Change ''warn'', Advance 1000] mounted)) =
     [(Search, ''err''), (Filter, ''warn'')]"
  (is "?h1 \<and> ?h2 \<and> ?h3 \<and> ?h4 \<and> ?h5 \<and> ?h6 \<and> ?h7 \<and> ?h8 \<and> ?c1 \<and> ?c2 \<and> ?c3")
proof -
  have h1: ?h1 by (rule rendered_mounted)
  have h2: ?h2 by (rule no_stale_mounted)
  have h3: ?h3 by (simp add: example_props_def)
  have h4: ?h4 by (simp add: example_props_def)
  have h5: ?h5 by (simp add: example_props_def)
  have h6: ?h6 by (simp add: mounted_def)
  have h7: ?h7 by simp
  have h8: ?h8 by simp
  have m: "trace mounted = []" "selected_cell mounted = Search" by (simp_all add: mounted_def)
  note c = pending_call_keeps_old_mode [OF h1 h2 h3 h4 h5 h6 h7 h8]
  have "?c1 \<and> ?c2 \<and> ?c3" using c unfolding m by simp
  then show ?thesis using h1 h2 h3 h4 h5 h6 h7 h8 by blast
qed

text \<open>
  C2, as stated, fails: an edit in Search mode, then Filter selected after 500 ms. When
  the timer fires, 1000 ms after the edit, Filter is the current mode and the call that
  is forwarded is \<open>onChange(Search, err)\<close>.
\<close>

theorem pending_call_mode_counterexample:
  "selected_cell (run example_props [Change ''err'', Advance 500, SelectOption Filter, Advance 499]
      mounted) = Filter \<and>
   onChanges (trace (run example_props
      [Change ''err'', Advance 500, SelectOption Filter, Advance 499] mounted)) = [] \<and>
   onChanges (trace (run example_props
      [Change ''err'', Advance 500, SelectOption Filter, Advance 499, Advance 1] mounted)) =
     [(Search, ''err'')] \<and>
   (Filter, ''err'') \<notin> set (onChanges (trace (run example_props
      [Change ''err'', Advance 500, SelectOption Filter, Advance 499, Advance 1] mounted)))"
  by code_simp

section \<open>Properties of the log line row\<close>

lemma find_sub_Some:
  "find_sub pat line = Some k \<Longrightarrow> k \<le> length line \<and> take (length pat) (drop k line) = pat"
proof (induction line arbitrary: k)
  case Nil
  then show ?case by (simp split: if_splits)
next
  case (Cons c cs)
  show ?case
  proof (cases "take (length pat) (c # cs) = pat")
    case True
    with Cons.prems show ?thesis by simp
  next
    case False
    with Cons.prems obtain j where j: "find_sub pat cs = Some j" and k: "k = Suc j"
      by auto
    from Cons.IH [OF j] k show ?thesis by simp
  qed
qed

lemma find_sub_None:
  "find_sub pat line = None \<Longrightarrow> k \<le> length line \<Longrightarrow> take (length pat) (drop k line) \<noteq> pat"
proof (induction line arbitrary: k)
  case Nil
  then show ?case by (auto split: if_splits)
next
  case (Cons c cs)
  from Cons.prems(1) have here: "take (length pat) (c # cs) \<noteq> pat"
    and rest: "find_sub pat cs = None"
    by (auto split: if_splits)
  show ?case
  proof (cases k)
    case 0
    with here show ?thesis by simp
  next
    case (Suc j)
    with Cons.prems(2) have "j \<le> length cs" by simp
    from Cons.IH [OF rest this] Suc show ?thesis by simp
  qed
qed

text \<open>The search finds a match exactly when the text contains one.\<close>

lemma find_ci_matches: "find_ci pat line \<noteq> None \<longleftrightarrow> matches_ci pat line"
proof
  assume "find_ci pat line \<noteq> None"
  then obtain k where k: "find_sub (map lower pat) (map lower line) = Some k"
    by (auto simp add: find_ci_def)
  from find_sub_Some [OF k]
  have p: "map lower (take (length pat) (drop k line)) = map lower pat"
    by (simp add: take_map drop_map)
  have "line = take k line @ take (length pat) (drop k line) @ drop (length pat) (drop k line)"
    by (simp only: append_take_drop_id)
  with p show "matches_ci pat line"
    unfolding matches_ci_def by blast
next
  assume "matches_ci pat line"
  then obtain pre mid post where t: "line = pre @ mid @ post"
    and m: "map lower mid = map lower pat"
    unfolding matches_ci_def by blast
  from m have "length mid = length pat" by (rule map_eq_imp_length_eq)
  then have "take (length (map lower pat)) (drop (length pre) (map lower line)) = map lower pat"
    using m by (simp add: t)
  moreover have "length pre \<le> length (map lower line)" by (simp add: t)
  ultimately show "find_ci pat line \<noteq> None"
    using find_sub_None [of "map lower pat" "map lower line" "length pre"]
    unfolding find_ci_def by blast
qed

lemma highlight_has_Mark: "list_ex is_Mark (highlight pat line) \<longleftrightarrow> find_ci pat line \<noteq> None"
  by (simp add: highlight_def split: option.splits)

text \<open>Highlighting adds an element and changes no text.\<close>

lemma textContent_highlight: "textContent (highlight pat line) = line"
proof (cases "find_ci pat line")
  case None
  then show ?thesis by (simp add: highlight_def textContent_def)
next
  case (Some k)
  have "take k line @ take (length pat) (drop k line) @ drop (length pat) (drop k line) = line"
    by (simp only: append_take_drop_id)
  then show ?thesis
    using Some by (simp add: highlight_def textContent_def add.commute)
qed

lemma textContent_Plain: "textContent [Plain t] = t"
  by (simp add: textContent_def)

lemma AnsiiRow_textContent: "AnsiiRow d i = Some ps \<Longrightarrow> getLine d i = Some (textContent ps)"
  by (auto simp add: AnsiiRow_def textContent_highlight textContent_Plain
      split: option.splits if_splits)

text \<open>
  C7: the row of a line whose text is undefined renders no container; the row of a line
  whose text is the empty string renders a container, with empty content.
\<close>

theorem row_container:
  "(getLine d i = None \<longrightarrow> AnsiiRow d i = None) \<and>
   (getLine d i = Some [] \<longrightarrow> (\<exists>ps. AnsiiRow d i = Some ps \<and> textContent ps = []))"
proof (intro conjI impI)
  assume "getLine d i = None"
  then show "AnsiiRow d i = None" by (simp add: AnsiiRow_def)
next
  assume e: "getLine d i = Some []"
  then obtain ps where ps: "AnsiiRow d i = Some ps"
    by (simp add: AnsiiRow_def)
  from AnsiiRow_textContent [OF ps] e have "textContent ps = []" by simp
  with ps show "\<exists>ps. AnsiiRow d i = Some ps \<and> textContent ps = []" by blast
qed

theorem row_container_witness:
  "getLine ((test_data None)\<lparr>getLine := (\<lambda>i. None)\<rparr>) 0 = None \<and>
   AnsiiRow ((test_data None)\<lparr>getLine := (\<lambda>i. None)\<rparr>) 0 = None \<and>
   getLine ((test_data None)\<lparr>getLine := (\<lambda>i. Some [])\<rparr>) 0 = Some [] \<and>
   (\<exists>ps. AnsiiRow ((test_data None)\<lparr>getLine := (\<lambda>i. Some [])\<rparr>) 0 = Some ps \<and>
         textContent ps = [])"
proof -
  have u: "getLine ((test_data None)\<lparr>getLine := (\<lambda>i. None)\<rparr>) 0 = None" by simp
  have e: "getLine ((test_data None)\<lparr>getLine := (\<lambda>i. Some [])\<rparr>) 0 = Some []" by simp
  show ?thesis
    using u e row_container [of "(test_data None)\<lparr>getLine := (\<lambda>i. None)\<rparr>" 0]
      row_container [of "(test_data None)\<lparr>getLine := (\<lambda>i. Some [])\<rparr>" 0]
    by blast
qed

text \<open>
  C8: the row of a line carries a highlight element exactly when the line has a text, a
  search term is set, the text matches it without regard to case, and, when a range is
  supplied, the line index is at least its lower bound and at most its upper bound when it
  has one.
\<close>

theorem highlight_condition:
  "highlighted d i \<longleftrightarrow>
     (\<exists>text pat. getLine d i = Some text \<and> searchTerm d = Some pat \<and> matches_ci pat text) \<and>
     (case lineRange d of
        None \<Rightarrow> True
      | Some r \<Rightarrow> lowerRange r \<le> i \<and> (case upperRange r of None \<Rightarrow> True | Some u \<Rightarrow> i \<le> u))"
proof (cases "getLine d i")
  case None
  then show ?thesis by (simp add: highlighted_def AnsiiRow_def)
next
  case line: (Some content)
  show ?thesis
  proof (cases "isLineInRange (lineRange d) i")
    case False
    then show ?thesis
      using line by (simp add: highlighted_def AnsiiRow_def isLineInRange_def)
  next
    case True
    then have r: "(case lineRange d of
        None \<Rightarrow> True
      | Some r \<Rightarrow> lowerRange r \<le> i \<and> (case upperRange r of None \<Rightarrow> True | Some u \<Rightarrow> i \<le> u))"
      by (simp add: isLineInRange_def)
    show ?thesis
    proof (cases "searchTerm d")
      case None
      then show ?thesis
        using line True by (simp add: highlighted_def AnsiiRow_def)
    next
      case (Some pat)
      have "highlighted d i \<longleftrightarrow> find_ci pat content \<noteq> None"
        using line True Some
        by (simp add: highlighted_def AnsiiRow_def highlight_has_Mark del: not_None_eq)
      then show ?thesis
        using line Some r by (simp add: find_ci_matches del: not_None_eq)
    qed
  qed
qed

theorem highlight_condition_witness:
  "highlighted (test_data None) 9 \<and>
   highlighted (test_data (Some 10)) 9 \<and>
   highlighted (test_data (Some 9)) 9 \<and>
   \<not> highlighted (test_data (Some 8)) 9 \<and>
   highlighted ((test_data (Some 9))\<lparr>searchTerm := Some ''HIGHLIGHT Me''\<rparr>) 9 \<and>
   highlighted ((test_data None)\<lparr>lineRange := None\<rparr>) 9 \<and>
   \<not> highlighted ((test_data None)\<lparr>searchTerm := None\<rparr>) 9 \<and>
   \<not> highlighted (test_data None) 8 \<and>
   matches_ci ''highlight me'' (logLines ! 9) \<and>
   \<not> matches_ci ''highlight me'' (logLines ! 8)"
proof -
  have n: "length logLines = 10"
    by (simp add: logLines_def)
  have l9: "logLines ! 9 =
      ''some random text that should not be highlighted but highlight me should''"
    by (simp add: logLines_def)
  have l8: "logLines ! 8 = ''Some line with a url https://www.google.com''"
    by (simp add: logLines_def)
  have f9: "find_ci ''highlight me''
      ''some random text that should not be highlighted but highlight me should'' = Some 52"
    by code_simp
  have f9u: "find_ci ''HIGHLIGHT Me''
      ''some random text that should not be highlighted but highlight me should'' = Some 52"
    by code_simp
  have f8: "find_ci ''highlight me'' ''Some line with a url https://www.google.com'' = None"
    by code_simp
  note ev = highlighted_def AnsiiRow_def test_data_def test_getLine_def isLineInRange_def
    highlight_def n l9 l8 f9 f9u f8
  have t: "highlighted (test_data None) 9" "highlighted (test_data (Some 10)) 9"
    "highlighted (test_data (Some 9)) 9" "\<not> highlighted (test_data (Some 8)) 9"
    "highlighted ((test_data (Some 9))\<lparr>searchTerm := Some ''HIGHLIGHT Me''\<rparr>) 9"
    "highlighted ((test_data None)\<lparr>lineRange := None\<rparr>) 9"
    "\<not> highlighted ((test_data None)\<lparr>searchTerm := None\<rparr>) 9"
    "\<not> highlighted (test_data None) 8"
    by (simp_all add: ev)
  have g: "getLine (test_data None) 9 = Some (logLines ! 9)"
    "getLine (test_data None) 8 = Some (logLines ! 8)"
    "searchTerm (test_data None) = Some ''highlight me''"
    "lineRange (test_data None) = Some \<lparr>lowerRange = 0, upperRange = None\<rparr>"
    by (simp_all add: test_data_def test_getLine_def n)
  have m9: "matches_ci ''highlight me'' (logLines ! 9)"
    using t(1) highlight_condition [of "test_data None" 9] by (simp add: g)
  have m8: "\<not> matches_ci ''highlight me'' (logLines ! 8)"
    using t(8) highlight_condition [of "test_data None" 8] by (simp add: g)
  show ?thesis using t m9 m8 by blast
qed

end
